theory Spec2Isabelle
  imports Complex_Main
begin

section \<open>ElasticDelayBuffer: a shallow embedding\<close>

text \<open>
  The class \<open>ElasticDelayBuffer\<close> of \<open>ff_buffers_ElasticDelayBuffer.h\<close>
  is modelled by explicit state passing: every member function takes the object as a
  record and returns the updated record. The template parameter \<open>SampleType\<close> is the
  type variable \<open>'a\<close>; the state of one \<open>CircularLagrangeInterpolator\<close> is the type
  variable \<open>'r\<close>.

  The C++ type \<open>int\<close> is modelled by \<open>int\<close>. In the calls that the theorems are about,
  the cursors and the block sizes lie between 0 and the capacity, and a sum or a
  difference of two of them fits 32 bits for every capacity up to \<open>2 ^ 30\<close>; the model
  has the plain integers there. The target delay of \<open>pullBlock\<close> is any 32-bit value, so in the factor of
  \<open>pullBlock\<close> the wrap-around of the 32-bit subtraction is written out (\<open>wrap32\<close>).
  \<open>jassert\<close> only reports in debug builds and never changes the control flow; the
  asserted conditions are the predicates \<open>pushBlock_pre\<close>, \<open>addToPushedBlock_pre\<close>,
  \<open>pullBlock_pre\<close> and \<open>setNumSamplesDelay_pre\<close> below. The atomic \<open>numDelaySamples\<close>
  is a plain field: the model is sequential, one member function at a time.
\<close>

subsection \<open>The type double\<close>

text \<open>
  \<open>pullBlock\<close> computes its resampling factor in \<open>double\<close>, the binary64 format of
  IEEE 754. A double is NaN, an infinity or a finite value, kept as the real number it
  stands for. A comparison with NaN is false. An arithmetic operation on finite values
  rounds the exact result to the nearest double, ties to the even significand
  (\<open>d_round\<close>), and a division by zero gives an infinity or NaN. There is no negative
  zero: none arises, the divisor \<open>numSamples * 8.0\<close> is \<open>+0.0\<close> when it is zero.

  \<open>d_round\<close>: \<open>ilog2\<close> finds the binary exponent \<open>e\<close> of the value by repeated halving
  or doubling (the bound of 2200 steps covers every exponent that matters: below -1022
  the exponent of the subnormal numbers is used, beyond 1023 the result overflows);
  the value is scaled so that the unit in the last place becomes 1, rounded to an
  integer, and scaled back; a result of magnitude \<open>2 ^ 1024\<close> or more is an infinity.
\<close>

datatype double = NaN | MInf | Fin real | PInf

fun ilog2 :: "nat \<Rightarrow> real \<Rightarrow> int" where
  "ilog2 0 x = 0"
| "ilog2 (Suc k) x =
     (if x < 1 then ilog2 k (x * 2) - 1 else if 2 \<le> x then ilog2 k (x / 2) + 1 else 0)"

definition scale2 :: "real \<Rightarrow> int \<Rightarrow> real" where
  "scale2 x k = (if 0 \<le> k then x * 2 ^ nat k else x / 2 ^ nat (- k))"

definition round_even :: "real \<Rightarrow> int" where
  "round_even q =
     (let f = \<lfloor>q\<rfloor>; r = q - of_int f
      in if r < 1 / 2 then f else if 1 / 2 < r then f + 1 else if even f then f else f + 1)"

definition d_round :: "real \<Rightarrow> double" where
  "d_round x =
     (if x = 0 then Fin 0
      else let e = max (ilog2 2200 \<bar>x\<bar>) (- 1022);
               r = scale2 (of_int (round_even (scale2 x (52 - e)))) (e - 52)
           in if 2 ^ 1024 \<le> \<bar>r\<bar> then (if 0 < x then PInf else MInf) else Fin r)"

text \<open>The conversion of a 32-bit \<open>int\<close> to \<open>double\<close> is exact.\<close>

definition d_of_int :: "int \<Rightarrow> double" where
  "d_of_int i = Fin (real_of_int i)"

fun d_less :: "double \<Rightarrow> double \<Rightarrow> bool" where
  "d_less NaN y = False"
| "d_less x NaN = False"
| "d_less (Fin a) (Fin b) = (a < b)"
| "d_less x MInf = False"
| "d_less MInf y = True"
| "d_less PInf y = False"
| "d_less x PInf = True"


fun d_add :: "double \<Rightarrow> double \<Rightarrow> double" where
  "d_add NaN y = NaN"
| "d_add x NaN = NaN"
| "d_add (Fin a) (Fin b) = d_round (a + b)"
| "d_add PInf MInf = NaN"
| "d_add MInf PInf = NaN"
| "d_add PInf y = PInf"
| "d_add x PInf = PInf"
| "d_add MInf y = MInf"
| "d_add x MInf = MInf"

fun d_mult :: "double \<Rightarrow> double \<Rightarrow> double" where
  "d_mult NaN y = NaN"
| "d_mult x NaN = NaN"
| "d_mult (Fin a) (Fin b) = d_round (a * b)"
| "d_mult (Fin a) PInf = (if a = 0 then NaN else if 0 < a then PInf else MInf)"
| "d_mult (Fin a) MInf = (if a = 0 then NaN else if 0 < a then MInf else PInf)"
| "d_mult PInf (Fin b) = (if b = 0 then NaN else if 0 < b then PInf else MInf)"
| "d_mult MInf (Fin b) = (if b = 0 then NaN else if 0 < b then MInf else PInf)"
| "d_mult PInf PInf = PInf"
| "d_mult MInf MInf = PInf"
| "d_mult PInf MInf = MInf"
| "d_mult MInf PInf = MInf"

fun d_div :: "double \<Rightarrow> double \<Rightarrow> double" where
  "d_div NaN y = NaN"
| "d_div x NaN = NaN"
| "d_div (Fin a) (Fin b) =
     (if b = 0 then (if a = 0 then NaN else if 0 < a then PInf else MInf)
      else d_round (a / b))"
| "d_div (Fin a) y = Fin 0"
| "d_div PInf (Fin b) = (if 0 \<le> b then PInf else MInf)"
| "d_div MInf (Fin b) = (if 0 \<le> b then MInf else PInf)"
| "d_div x y = NaN"

subsection \<open>Machine integers\<close>

text \<open>
  \<open>int32\<close> are the values of the C++ type \<open>int\<close>, and \<open>wrap32\<close> is what a 32-bit
  two's-complement addition or subtraction leaves of the exact result. The operator \<open>%\<close>
  of C++ truncates towards zero; \<open>mod\<close> of HOL rounds down.
\<close>

definition int32 :: "int \<Rightarrow> bool" where
  "int32 x = (- 2147483648 \<le> x \<and> x < 2147483648)"

definition wrap32 :: "int \<Rightarrow> int" where
  "wrap32 x = (x + 2147483648) mod 4294967296 - 2147483648"

definition c_rem :: "int \<Rightarrow> int \<Rightarrow> int" where
  "c_rem a b = sgn a * (\<bar>a\<bar> mod \<bar>b\<bar>)"

subsection \<open>juce::AudioBuffer\<close>

text \<open>
  Modelled from the spec: \<open>juce::AudioBuffer\<close>, the multi-channel sample container, is
  not among the sources. A buffer is its number of samples per channel and one list of
  samples per channel. \<open>setSize\<close> with \<open>keepExistingContent = false\<close> and
  \<open>clearExtraSpace = true\<close> leaves a buffer of unchanged dimensions as it is and hands
  out zeroed storage otherwise; \<open>copyFrom\<close> stores the source samples scaled by the gain,
  \<open>addFrom\<close> adds them to what is stored (both through \<open>write_samples\<close>, which combines
  the stored sample and the source sample at every index of the written range). A write
  outside the channel is undefined in C++; the model drops it, and the theorems below are
  about calls that stay inside.
\<close>

record 'a AudioBuffer =
  chans :: "'a list list"
  bufSize :: int

definition emptyBuffer :: "'a AudioBuffer" where
  "emptyBuffer = \<lparr>chans = [], bufSize = 0\<rparr>"

definition getNumSamples :: "'a AudioBuffer \<Rightarrow> int" where
  "getNumSamples b = bufSize b"

definition getNumChannels :: "'a AudioBuffer \<Rightarrow> int" where
  "getNumChannels b = int (length (chans b))"

definition getReadPointer :: "'a AudioBuffer \<Rightarrow> nat \<Rightarrow> int \<Rightarrow> 'a list" where
  "getReadPointer b channel sampleIndex = drop (nat sampleIndex) (chans b ! channel)"

definition buffer_setSize :: "'a::zero AudioBuffer \<Rightarrow> int \<Rightarrow> int \<Rightarrow> 'a AudioBuffer" where
  "buffer_setSize b newNumChannels newNumSamples =
     (if newNumSamples \<noteq> getNumSamples b \<or> newNumChannels \<noteq> getNumChannels b
      then \<lparr>chans = replicate (nat newNumChannels) (replicate (nat newNumSamples) 0),
            bufSize = newNumSamples\<rparr>
      else b)"

definition buffer_clear :: "'a::zero AudioBuffer \<Rightarrow> 'a AudioBuffer" where
  "buffer_clear b = b\<lparr>chans := map (\<lambda>c. replicate (length c) 0) (chans b)\<rparr>"

definition write_samples :: "('a \<Rightarrow> 'a \<Rightarrow> 'a) \<Rightarrow> 'a list \<Rightarrow> int \<Rightarrow> 'a list \<Rightarrow> int \<Rightarrow> 'a list" where
  "write_samples h dest destStart source num =
     map (\<lambda>k. if destStart \<le> int k \<and> int k < destStart + num
              then h (dest ! k) (source ! nat (int k - destStart))
              else dest ! k) [0..<length dest]"

definition copyFrom :: "'a::times AudioBuffer \<Rightarrow> nat \<Rightarrow> int \<Rightarrow> 'a list \<Rightarrow> int \<Rightarrow> 'a \<Rightarrow> 'a AudioBuffer" where
  "copyFrom b destChannel destStart source num gain =
     b\<lparr>chans := (chans b)[destChannel :=
          write_samples (\<lambda>old x. x * gain) (chans b ! destChannel) destStart source num]\<rparr>"

definition addFrom :: "'a::{plus,times} AudioBuffer \<Rightarrow> nat \<Rightarrow> int \<Rightarrow> 'a list \<Rightarrow> int \<Rightarrow> 'a \<Rightarrow> 'a AudioBuffer" where
  "addFrom b destChannel destStart source num gain =
     b\<lparr>chans := (chans b)[destChannel :=
          write_samples (\<lambda>old x. old + x * gain) (chans b ! destChannel) destStart source num]\<rparr>"

text \<open>A buffer is well formed when every channel holds \<open>bufSize\<close> samples.\<close>

definition buffer_ok :: "'a AudioBuffer \<Rightarrow> bool" where
  "buffer_ok b = (0 \<le> bufSize b \<and> list_all (\<lambda>c. int (length c) = bufSize b) (chans b))"

subsection \<open>CircularLagrangeInterpolator\<close>

text \<open>
  Modelled from the spec: the class \<open>CircularLagrangeInterpolator\<close> is not among the
  sources, so it is a parameter of the model. \<open>new_r\<close> is a freshly constructed
  interpolator, \<open>reset_r\<close> clears the history, and \<open>process_r r factor (ring, pos) out
  numOut available wrap\<close> resamples from the ring channel, read from index \<open>pos\<close>, into
  the output channel and returns the number of consumed samples, the new interpolator
  state and the new output channel.
\<close>

record ('a, 'r) Interpolator =
  new_r :: 'r
  reset_r :: "'r \<Rightarrow> 'r"
  process_r :: "'r \<Rightarrow> double \<Rightarrow> 'a list \<times> int \<Rightarrow> 'a list \<Rightarrow> int \<Rightarrow> int \<Rightarrow> int \<Rightarrow> int \<times> 'r \<times> 'a list"

subsection \<open>The class\<close>

record ('a, 'r) ElasticDelayBuffer =
  buffer :: "'a AudioBuffer"
  resamplers :: "'r list"
  writePosition :: int
  readPosition :: int
  numDelaySamples :: int
  maxResamplingFactor :: double

text \<open>
  The constructor: an empty buffer, no resamplers, both positions 0 and the factor 8.0.
  The atomic \<open>numDelaySamples\<close> has no initialiser, so its first value \<open>d0\<close> is a
  parameter.
\<close>

definition newElasticDelayBuffer :: "int \<Rightarrow> ('a, 'r) ElasticDelayBuffer" where
  "newElasticDelayBuffer d0 =
     \<lparr>buffer = emptyBuffer, resamplers = [], writePosition = 0, readPosition = 0,
      numDelaySamples = d0, maxResamplingFactor = Fin 8\<rparr>"

definition updateActualSampleDelay :: "('a, 'r) ElasticDelayBuffer \<Rightarrow> ('a, 'r) ElasticDelayBuffer" where
  "updateActualSampleDelay s =
     s\<lparr>numDelaySamples :=
         (if writePosition s < readPosition s
          then writePosition s + getNumSamples (buffer s) - readPosition s
          else writePosition s - readPosition s)\<rparr>"

definition getActualSampleDelay :: "('a, 'r) ElasticDelayBuffer \<Rightarrow> int" where
  "getActualSampleDelay s = numDelaySamples s"

definition reset :: "('a, 'r) Interpolator \<Rightarrow> ('a, 'r) ElasticDelayBuffer \<Rightarrow> ('a, 'r) ElasticDelayBuffer" where
  "reset P s = s\<lparr>resamplers := map (reset_r P) (resamplers s)\<rparr>"

definition setMaxResamplingFactor :: "('a, 'r) ElasticDelayBuffer \<Rightarrow> double \<Rightarrow> ('a, 'r) ElasticDelayBuffer" where
  "setMaxResamplingFactor s factor = s\<lparr>maxResamplingFactor := factor\<rparr>"

definition setNumSamplesDelay :: "('a, 'r) Interpolator \<Rightarrow> ('a, 'r) ElasticDelayBuffer \<Rightarrow> int \<Rightarrow> ('a, 'r) ElasticDelayBuffer" where
  "setNumSamplesDelay P s delay =
     (let assumedRead = writePosition s - delay;
          s1 = s\<lparr>readPosition :=
                   (if assumedRead < 0 then assumedRead + getNumSamples (buffer s)
                    else assumedRead)\<rparr>
      in updateActualSampleDelay (reset P s1))"

definition setNumSamplesDelay_pre :: "('a, 'r) ElasticDelayBuffer \<Rightarrow> int \<Rightarrow> bool" where
  "setNumSamplesDelay_pre s delay = (delay < getNumSamples (buffer s))"


text \<open>
  \<open>setSize\<close>. The first loop appends fresh interpolators and always ends. The second
  loop removes the last interpolator while there are more than \<open>numChannels\<close> of them;
  \<open>removeLast\<close> on an empty array does nothing, so for a negative \<open>numChannels\<close> the loop
  never ends: it is a partial function, and \<open>setSize\<close> returns \<open>None\<close> when it
  does not return.
\<close>

function addResamplers :: "('a, 'r) Interpolator \<Rightarrow> 'r list \<Rightarrow> int \<Rightarrow> 'r list" where
  "addResamplers P rs numChannels =
     (if int (length rs) < numChannels then addResamplers P (rs @ [new_r P]) numChannels
      else rs)"
  by pat_completeness auto
termination
  by (relation "measure (\<lambda>(P, rs, n). nat (n - int (length rs)))") auto

declare addResamplers.simps [simp del]

partial_function (option) removeResamplers :: "'r list \<Rightarrow> int \<Rightarrow> 'r list option" where
  "removeResamplers rs numChannels =
     (if int (length rs) > numChannels then removeResamplers (butlast rs) numChannels
      else Some rs)"

definition setSize :: "('a::zero, 'r) Interpolator \<Rightarrow> ('a, 'r) ElasticDelayBuffer \<Rightarrow> int \<Rightarrow> int \<Rightarrow> double
    \<Rightarrow> ('a, 'r) ElasticDelayBuffer option" where
  "setSize P s numChannels numSamples sampleRate =
     (let b = buffer_setSize (buffer s) numChannels numSamples;
          rs1 = addResamplers P (resamplers s) numChannels
      in case removeResamplers rs1 numChannels of
           None \<Rightarrow> None
         | Some rs2 \<Rightarrow>
             let s1 = s\<lparr>buffer := b, resamplers := rs2\<rparr>;
                 s2 = (if writePosition s1 \<ge> numSamples
                       then s1\<lparr>writePosition := 0, buffer := buffer_clear b,
                               resamplers := map (reset_r P) rs2\<rparr>
                       else s1)
             in Some (updateActualSampleDelay s2))"

text \<open>\<open>pushBlock\<close>: the loops over the channels are folds over the channel indices.\<close>

definition pushBlock_pre :: "('a, 'r) ElasticDelayBuffer \<Rightarrow> 'a AudioBuffer \<Rightarrow> int \<Rightarrow> bool" where
  "pushBlock_pre s inputBuffer numSamples =
     (getNumSamples (buffer s) > numSamples \<and>
      getNumChannels (buffer s) = getNumChannels inputBuffer)"

definition pushBlock :: "('a::times, 'r) ElasticDelayBuffer \<Rightarrow> 'a AudioBuffer \<Rightarrow> int \<Rightarrow> 'a
    \<Rightarrow> ('a, 'r) ElasticDelayBuffer" where
  "pushBlock s inputBuffer numSamples gain =
     (let available = getNumSamples (buffer s) - (writePosition s + numSamples)
      in if available \<ge> 0
         then updateActualSampleDelay
           (s\<lparr>buffer :=
                 fold (\<lambda>i b. copyFrom b i (writePosition s) (getReadPointer inputBuffer i 0)
                                numSamples gain)
                   [0..<nat (getNumChannels (buffer s))] (buffer s),
              writePosition := writePosition s + numSamples\<rparr>)
         else updateActualSampleDelay
           (s\<lparr>buffer :=
                 fold (\<lambda>i b. copyFrom
                                (copyFrom b i (writePosition s) (getReadPointer inputBuffer i 0)
                                   (numSamples + available) gain)
                                i 0 (getReadPointer inputBuffer i (numSamples + available))
                                (- available) gain)
                   [0..<nat (getNumChannels (buffer s))] (buffer s),
              writePosition := - available\<rparr>))"

definition addToPushedBlock_pre :: "('a, 'r) ElasticDelayBuffer \<Rightarrow> 'a AudioBuffer \<Rightarrow> int \<Rightarrow> bool" where
  "addToPushedBlock_pre s inputBuffer numSamples =
     (getNumSamples (buffer s) > numSamples \<and>
      getNumChannels (buffer s) = getNumChannels inputBuffer)"

definition addToPushedBlock :: "('a::{plus,times}, 'r) ElasticDelayBuffer \<Rightarrow> 'a AudioBuffer \<Rightarrow> int \<Rightarrow> 'a
    \<Rightarrow> ('a, 'r) ElasticDelayBuffer" where
  "addToPushedBlock s inputBuffer numSamples gain =
     (let previousWrite0 = writePosition s - numSamples;
          previousWrite = (if previousWrite0 < 0 then previousWrite0 + getNumSamples (buffer s)
                           else previousWrite0);
          available = getNumSamples (buffer s) - (previousWrite + numSamples)
      in if available \<ge> 0
         then s\<lparr>buffer :=
                  fold (\<lambda>i b. addFrom b i previousWrite (getReadPointer inputBuffer i 0)
                                 numSamples gain)
                    [0..<nat (getNumChannels (buffer s))] (buffer s)\<rparr>
         else s\<lparr>buffer :=
                  fold (\<lambda>i b. addFrom
                                 (addFrom b i previousWrite (getReadPointer inputBuffer i 0)
                                    (numSamples + available) gain)
                                 i 0 (getReadPointer inputBuffer i (numSamples + available))
                                 (- available) gain)
                    [0..<nat (getNumChannels (buffer s))] (buffer s)\<rparr>)"

text \<open>
  \<open>pullBlock\<close>, in three parts: the factor before the clamps (\<open>rawFactor\<close>, whose
  integer part, lines 129 to 132, is \<open>currentDelay\<close> and \<open>pullDifference\<close>), the two
  clamps (\<open>clampFactor\<close>), and the loop over the channels of the output buffer, which
  keeps the count returned by the latest call of \<open>process\<close>.
\<close>

definition pullBlock_pre :: "('a, 'r) ElasticDelayBuffer \<Rightarrow> 'a AudioBuffer \<Rightarrow> bool" where
  "pullBlock_pre s outputBuffer =
     (getNumSamples (buffer s) > getNumSamples outputBuffer \<and>
      getNumChannels (buffer s) = getNumChannels outputBuffer \<and>
      getNumChannels (buffer s) = int (length (resamplers s)))"

definition currentDelay :: "('a, 'r) ElasticDelayBuffer \<Rightarrow> int" where
  "currentDelay s =
     (let d = wrap32 (writePosition s - readPosition s)
      in if d < 0 then wrap32 (d + getNumSamples (buffer s)) else d)"

definition pullDifference :: "('a, 'r) ElasticDelayBuffer \<Rightarrow> int \<Rightarrow> int \<Rightarrow> int" where
  "pullDifference s numSamples delayTime =
     wrap32 (wrap32 (currentDelay s - numSamples) - delayTime)"

definition rawFactor :: "('a, 'r) ElasticDelayBuffer \<Rightarrow> int \<Rightarrow> int \<Rightarrow> double" where
  "rawFactor s numSamples delayTime =
     (let difference = d_of_int (pullDifference s numSamples delayTime)
      in d_add (Fin 1) (d_div difference (d_mult (d_of_int numSamples) (Fin 8))))"

text \<open>The literal \<open>0.0001\<close> is the double nearest to one ten-thousandth.\<close>

definition lowFactor :: double where
  "lowFactor = d_round (1 / 10000)"

definition clampFactor :: "double \<Rightarrow> double \<Rightarrow> double" where
  "clampFactor maxFactor factor =
     (let factor1 = (if d_less factor lowFactor then lowFactor else factor)
      in if d_less maxFactor factor1 then maxFactor else factor1)"

definition pullFactor :: "('a, 'r) ElasticDelayBuffer \<Rightarrow> int \<Rightarrow> int \<Rightarrow> double" where
  "pullFactor s numSamples delayTime =
     clampFactor (maxResamplingFactor s) (rawFactor s numSamples delayTime)"

definition pullChannel :: "('a, 'r) Interpolator \<Rightarrow> ('a, 'r) ElasticDelayBuffer \<Rightarrow> double \<Rightarrow> int \<Rightarrow> nat
    \<Rightarrow> int \<times> 'r list \<times> 'a AudioBuffer \<Rightarrow> int \<times> 'r list \<times> 'a AudioBuffer" where
  "pullChannel P s factor numSamples channel acc =
     (case acc of (used, rs, ob) \<Rightarrow>
        (case process_r P (rs ! channel) factor (chans (buffer s) ! channel, readPosition s)
                (chans ob ! channel) numSamples
                (getNumSamples (buffer s) - readPosition s) (getNumSamples (buffer s)) of
           (u, r', och) \<Rightarrow> (u, rs[channel := r'], ob\<lparr>chans := (chans ob)[channel := och]\<rparr>)))"

definition pullBlock :: "('a, 'r) Interpolator \<Rightarrow> ('a, 'r) ElasticDelayBuffer \<Rightarrow> 'a AudioBuffer \<Rightarrow> int \<Rightarrow> int
    \<Rightarrow> ('a, 'r) ElasticDelayBuffer \<times> 'a AudioBuffer" where
  "pullBlock P s outputBuffer numSamples delayTime =
     (case fold (pullChannel P s (pullFactor s numSamples delayTime) numSamples)
             [0..<nat (getNumChannels outputBuffer)] (0, resamplers s, outputBuffer) of
        (used, rs, ob) \<Rightarrow>
          (updateActualSampleDelay
             (s\<lparr>resamplers := rs,
                readPosition := c_rem (readPosition s + used) (getNumSamples (buffer s))\<rparr>),
           ob))"

subsection \<open>Notions used by the statements\<close>



text \<open>
  The cursor invariant of the spec's data model, and the delay snapshot being the one
  that \<open>updateActualSampleDelay\<close> computes from the present cursors.
\<close>

definition cursors_ok :: "('a, 'r) ElasticDelayBuffer \<Rightarrow> bool" where
  "cursors_ok s =
     (0 \<le> writePosition s \<and> writePosition s < getNumSamples (buffer s) \<and>
      0 \<le> readPosition s \<and> readPosition s < getNumSamples (buffer s))"

definition delay_current :: "('a, 'r) ElasticDelayBuffer \<Rightarrow> bool" where
  "delay_current s =
     (numDelaySamples s =
        (if writePosition s < readPosition s
         then writePosition s + getNumSamples (buffer s) - readPosition s
         else writePosition s - readPosition s))"

text \<open>
  What every member function keeps when it is called as documented: a well-formed buffer,
  a write cursor between 0 and the capacity, the capacity included, and a read cursor that
  is not negative.
\<close>

definition reach_inv :: "('a, 'r) ElasticDelayBuffer \<Rightarrow> bool" where
  "reach_inv s =
     (buffer_ok (buffer s) \<and> 0 \<le> writePosition s \<and>
      writePosition s \<le> getNumSamples (buffer s) \<and> 0 \<le> readPosition s)"

text \<open>An input block holds at least \<open>numSamples\<close> samples in every channel.\<close>

definition input_ok :: "'a AudioBuffer \<Rightarrow> int \<Rightarrow> bool" where
  "input_ok inputBuffer numSamples =
     list_all (\<lambda>c. numSamples \<le> int (length c)) (chans inputBuffer)"

text \<open>
  Two notions for the proofs about the ring: \<open>upd_chan\<close> rewrites one channel of a
  buffer, and \<open>ring_write\<close> is what \<open>pushBlock\<close> and \<open>addToPushedBlock\<close> do to one
  channel, a block of \<open>n\<close> samples written at \<open>p\<close> in one piece or in two.
\<close>

definition upd_chan :: "('a list \<Rightarrow> 'a list) \<Rightarrow> nat \<Rightarrow> 'a AudioBuffer \<Rightarrow> 'a AudioBuffer" where
  "upd_chan g i b = b\<lparr>chans := (chans b)[i := g (chans b ! i)]\<rparr>"

definition ring_write :: "('a \<Rightarrow> 'a \<Rightarrow> 'a) \<Rightarrow> int \<Rightarrow> int \<Rightarrow> int \<Rightarrow> 'a list \<Rightarrow> 'a list \<Rightarrow> 'a list" where
  "ring_write h N p n src =
     (\<lambda>d. if N - (p + n) \<ge> 0 then write_samples h d p (drop (nat 0) src) n
          else write_samples h (write_samples h d p (drop (nat 0) src) (n + (N - (p + n)))) 0
                 (drop (nat (n + (N - (p + n)))) src) (- (N - (p + n))))"

text \<open>The call of \<open>process\<close> that the loop of \<open>pullBlock\<close> makes for one channel.\<close>

definition channelResult :: "('a, 'r) Interpolator \<Rightarrow> ('a, 'r) ElasticDelayBuffer \<Rightarrow> double \<Rightarrow> int
    \<Rightarrow> 'r list \<Rightarrow> 'a AudioBuffer \<Rightarrow> nat \<Rightarrow> int \<times> 'r \<times> 'a list" where
  "channelResult P s factor numSamples rs ob channel =
     process_r P (rs ! channel) factor (chans (buffer s) ! channel, readPosition s)
       (chans ob ! channel) numSamples
       (getNumSamples (buffer s) - readPosition s) (getNumSamples (buffer s))"

definition lastUsed :: "('a, 'r) Interpolator \<Rightarrow> ('a, 'r) ElasticDelayBuffer \<Rightarrow> 'a AudioBuffer \<Rightarrow> int \<Rightarrow> int
    \<Rightarrow> int" where
  "lastUsed P s outputBuffer numSamples delayTime =
     (if nat (getNumChannels outputBuffer) = 0 then 0
      else fst (channelResult P s (pullFactor s numSamples delayTime) numSamples (resamplers s)
                  outputBuffer (nat (getNumChannels outputBuffer) - 1)))"

subsection \<open>Concrete objects\<close>

text \<open>
  An interpolator that remembers the factor it was last given, consumes as many samples
  as it is asked to produce and leaves the output alone; a mono buffer of capacity 8 after
  \<open>setSize\<close>, after one block of four samples and after two; and the block.
\<close>

definition demoInterp :: "(int, double) Interpolator" where
  "demoInterp =
     \<lparr>new_r = Fin 0, reset_r = (\<lambda>r. Fin 0),
      process_r = (\<lambda>r factor ring out numOut available wrap. (numOut, factor, out))\<rparr>"

definition demoEmpty :: "(int, double) ElasticDelayBuffer" where
  "demoEmpty =
     \<lparr>buffer = \<lparr>chans = [[0, 0, 0, 0, 0, 0, 0, 0]], bufSize = 8\<rparr>, resamplers = [Fin 0],
      writePosition = 0, readPosition = 0, numDelaySamples = 0, maxResamplingFactor = Fin 8\<rparr>"

definition demoBlock :: "int AudioBuffer" where
  "demoBlock = \<lparr>chans = [[1, 2, 3, 4]], bufSize = 4\<rparr>"

definition demoHalf :: "(int, double) ElasticDelayBuffer" where
  "demoHalf =
     \<lparr>buffer = \<lparr>chans = [[1, 2, 3, 4, 0, 0, 0, 0]], bufSize = 8\<rparr>, resamplers = [Fin 0],
      writePosition = 4, readPosition = 0, numDelaySamples = 4, maxResamplingFactor = Fin 8\<rparr>"

definition demoFull :: "(int, double) ElasticDelayBuffer" where
  "demoFull =
     \<lparr>buffer = \<lparr>chans = [[1, 2, 3, 4, 1, 2, 3, 4]], bufSize = 8\<rparr>, resamplers = [Fin 0],
      writePosition = 8, readPosition = 0, numDelaySamples = 8, maxResamplingFactor = Fin 8\<rparr>"

text \<open>
  More objects: an output block of three samples; a ring whose write cursor has wrapped;
  the empty buffer after \<open>setNumSamplesDelay 3\<close>, then after a block of four samples,
  then after \<open>setSize\<close> to a capacity of 4; and a stereo buffer with an interpolator
  that consumes as many samples as the sample under the read cursor says.
\<close>

definition demoOut :: "int AudioBuffer" where
  "demoOut = \<lparr>chans = [[0, 0, 0]], bufSize = 3\<rparr>"

definition demoWrapped :: "(int, double) ElasticDelayBuffer" where
  "demoWrapped =
     \<lparr>buffer = \<lparr>chans = [[10, 20, 30, 40, 50, 60, 70, 80]], bufSize = 8\<rparr>, resamplers = [Fin 0],
      writePosition = 1, readPosition = 3, numDelaySamples = 6, maxResamplingFactor = Fin 8\<rparr>"

definition demoDelayed :: "(int, double) ElasticDelayBuffer" where
  "demoDelayed =
     \<lparr>buffer = \<lparr>chans = [[0, 0, 0, 0, 0, 0, 0, 0]], bufSize = 8\<rparr>, resamplers = [Fin 0],
      writePosition = 0, readPosition = 5, numDelaySamples = 3, maxResamplingFactor = Fin 8\<rparr>"

definition demoShifted :: "(int, double) ElasticDelayBuffer" where
  "demoShifted =
     \<lparr>buffer = \<lparr>chans = [[1, 2, 3, 4, 0, 0, 0, 0]], bufSize = 8\<rparr>, resamplers = [Fin 0],
      writePosition = 4, readPosition = 5, numDelaySamples = 7, maxResamplingFactor = Fin 8\<rparr>"

definition demoShrunk :: "(int, double) ElasticDelayBuffer" where
  "demoShrunk =
     \<lparr>buffer = \<lparr>chans = [[0, 0, 0, 0]], bufSize = 4\<rparr>, resamplers = [Fin 0],
      writePosition = 0, readPosition = 5, numDelaySamples = - 1, maxResamplingFactor = Fin 8\<rparr>"







section \<open>Properties of the parts\<close>

subsection \<open>The clamp and the factor\<close>

text \<open>
  Facts about the rounding: it never gives NaN, and a value of magnitude 1 or more does
  not round to zero. \<open>double_eval\<close> evaluates \<open>d_round\<close> at a number.
\<close>

lemma ilog2_numeral:
  "ilog2 (numeral k) x =
     (if x < 1 then ilog2 (pred_numeral k) (x * 2) - 1
      else if 2 \<le> x then ilog2 (pred_numeral k) (x / 2) + 1 else 0)"
  by (simp add: numeral_eq_Suc)

lemmas double_eval = d_round_def round_even_def scale2_def ilog2_numeral Let_def









lemma lowFactor_eq: "lowFactor = Fin (7378697629483821 / 73786976294838206464)"
  by (simp add: lowFactor_def d_round_def round_even_def Let_def scale2_def ilog2_numeral)

lemma wrap32_id: "int32 x \<Longrightarrow> wrap32 x = x"
  by (simp add: int32_def wrap32_def)

lemma int32_wrap32 [simp]: "int32 (wrap32 x)"
  by (simp add: int32_def wrap32_def)






lemma clampFactor_NaN [simp]: "clampFactor m NaN = NaN"
  by (cases m) (simp_all add: clampFactor_def Let_def lowFactor_eq)




lemmas factor_eval = pullFactor_def clampFactor_def rawFactor_def pullDifference_def
  currentDelay_def wrap32_def d_of_int_def lowFactor_eq getNumSamples_def

lemma wrap_mod:
  "- N \<le> d \<Longrightarrow> d < N \<Longrightarrow> (if d < 0 then d + N else d) = d mod (N::int)"
proof (cases "d < 0")
  case True
  assume a: "- N \<le> d" "d < N"
  have "(d + N) mod N = d + N" using a True by (intro mod_pos_pos_trivial) auto
  then have "d mod N = d + N" by (simp only: mod_add_self2)
  with True show ?thesis by simp
next
  case False
  assume "- N \<le> d" "d < N"
  with False show ?thesis by simp
qed

lemma currentDelay_mod:
  assumes "cursors_ok s" and "int32 (getNumSamples (buffer s))"
  shows "currentDelay s = (writePosition s - readPosition s) mod getNumSamples (buffer s)"
proof -
  let ?N = "getNumSamples (buffer s)"
  let ?d = "writePosition s - readPosition s"
  from assms have b: "- ?N \<le> ?d" "?d < ?N" "int32 ?d"
    by (auto simp: cursors_ok_def int32_def)
  from assms b have "int32 (?d + ?N)" if "?d < 0"
    using that by (auto simp: int32_def)
  then show ?thesis
    using wrap_mod [OF b(1,2)] b(3)
    by (auto simp: currentDelay_def Let_def wrap32_id)
qed

lemma rawFactor_cursors_ok:
  assumes "cursors_ok s" and "int32 (getNumSamples (buffer s))"
    and "int32 ((writePosition s - readPosition s) mod getNumSamples (buffer s) - n)"
    and "int32 (((writePosition s - readPosition s) mod getNumSamples (buffer s) - n) - d)"
  shows "rawFactor s n d =
     d_add (Fin 1)
       (d_div (d_of_int (((writePosition s - readPosition s) mod getNumSamples (buffer s) - n) - d))
          (d_mult (d_of_int n) (Fin 8)))"
  using assms by (simp add: rawFactor_def pullDifference_def currentDelay_mod wrap32_id)

lemma c_rem_mod: "0 \<le> a \<Longrightarrow> 0 < b \<Longrightarrow> c_rem a b = a mod b"
  by (cases "a = 0") (simp_all add: c_rem_def)

subsection \<open>Writing into the ring\<close>

lemma fold_upd_chan:
  "m \<le> length (chans b) \<Longrightarrow>
   bufSize (fold (\<lambda>i. upd_chan (g i) i) [0..<m] b) = bufSize b \<and>
   length (chans (fold (\<lambda>i. upd_chan (g i) i) [0..<m] b)) = length (chans b) \<and>
   (\<forall>c < length (chans b).
      chans (fold (\<lambda>i. upd_chan (g i) i) [0..<m] b) ! c =
        (if c < m then g c (chans b ! c) else chans b ! c))"
proof (induction m)
  case 0
  then show ?case by simp
next
  case (Suc m)
  define b' where "b' = fold (\<lambda>i. upd_chan (g i) i) [0..<m] b"
  from Suc have IH: "bufSize b' = bufSize b" "length (chans b') = length (chans b)"
    "\<And>c. c < length (chans b) \<Longrightarrow>
      chans b' ! c = (if c < m then g c (chans b ! c) else chans b ! c)"
    unfolding b'_def by auto
  from Suc.prems have m: "m < length (chans b)" by simp
  have step: "fold (\<lambda>i. upd_chan (g i) i) [0..<Suc m] b = upd_chan (g m) m b'"
    by (simp add: b'_def)
  show ?case
    unfolding step using IH m by (auto simp: upd_chan_def nth_list_update less_Suc_eq)
qed

lemma copyFrom_upd_chan:
  "copyFrom b i st src n g = upd_chan (\<lambda>c. write_samples (\<lambda>old x. x * g) c st src n) i b"
  by (simp add: copyFrom_def upd_chan_def)

lemma addFrom_upd_chan:
  "addFrom b i st src n g = upd_chan (\<lambda>c. write_samples (\<lambda>old x. old + x * g) c st src n) i b"
  by (simp add: addFrom_def upd_chan_def)

lemma upd_chan_twice:
  "upd_chan f i (upd_chan g i b) = upd_chan (\<lambda>c. f (g c)) i b"
  by (cases "i < length (chans b)") (simp_all add: upd_chan_def not_less list_update_beyond)

lemma length_write_samples [simp]: "length (write_samples h d st src n) = length d"
  by (simp add: write_samples_def)

lemma nth_write_samples:
  "k < length d \<Longrightarrow>
   write_samples h d st src n ! k =
     (if st \<le> int k \<and> int k < st + n then h (d ! k) (src ! nat (int k - st)) else d ! k)"
  by (simp add: write_samples_def)

lemma ring_index:
  "0 \<le> k \<Longrightarrow> k < N \<Longrightarrow> 0 \<le> w \<Longrightarrow> w \<le> N \<Longrightarrow>
   (k - w) mod N = (if w \<le> k then k - w else k - w + (N::int))"
proof (cases "w \<le> k")
  case True
  assume "0 \<le> k" "k < N" "0 \<le> w" "w \<le> N"
  with True show ?thesis by simp
next
  case False
  assume a: "0 \<le> k" "k < N" "0 \<le> w" "w \<le> N"
  have "(k - w + N) mod N = k - w + N" using a False by (intro mod_pos_pos_trivial) auto
  then have "(k - w) mod N = k - w + N" by (simp only: mod_add_self2)
  then show ?thesis using False by (simp only: if_False)
qed

lemma nth_ring_write:
  assumes len: "int (length d) = N" and p: "0 \<le> p" "p \<le> N" and n: "0 \<le> n" "n < N"
    and src: "n \<le> int (length src)" and k: "k < length d"
  shows "ring_write h N p n src d ! k =
     (if (int k - p) mod N < n then h (d ! k) (src ! nat ((int k - p) mod N)) else d ! k)"
proof -
  have kN: "0 \<le> int k" "int k < N" using k len by auto
  have idx: "(int k - p) mod N = (if p \<le> int k then int k - p else int k - p + N)"
    using ring_index [OF kN p] .
  show ?thesis
  proof (cases "N - (p + n) \<ge> 0")
    case True
    then show ?thesis
      using k kN p n by (auto simp: ring_write_def nth_write_samples idx)
  next
    case False
    have e1: "n + (N - (p + n)) = N - p" and e2: "- (N - (p + n)) = p + n - N" by simp_all
    have d1: "nat (N - p) \<le> length src" using src False p by auto
    have i1: "nat (N - p) + nat (int k) = nat (int k - p + N)" using p kN by simp
    show ?thesis
      using False k kN p n i1
      by (auto simp: ring_write_def nth_write_samples idx e1 e2 nth_drop [OF d1]
          simp del: nat_int)
  qed
qed

lemma fold_ring_write_nth:
  assumes ok: "buffer_ok b" and chs: "length (chans b) = length (chans inp)"
    and inp: "input_ok inp n" and n: "0 \<le> n" "n < bufSize b" and p: "0 \<le> p" "p \<le> bufSize b"
    and c: "c < length (chans b)" and k: "int k < bufSize b"
  shows "chans (fold (\<lambda>i. upd_chan (ring_write h (bufSize b) p n (chans inp ! i)) i)
                  [0..<length (chans b)] b) ! c ! k =
     (if (int k - p) mod bufSize b < n
      then h (chans b ! c ! k) (chans inp ! c ! nat ((int k - p) mod bufSize b))
      else chans b ! c ! k)"
proof -
  have len: "int (length (chans b ! c)) = bufSize b"
    using ok c by (simp add: buffer_ok_def list_all_length)
  have src: "n \<le> int (length (chans inp ! c))"
    using inp c chs by (simp add: input_ok_def list_all_length)
  have kl: "k < length (chans b ! c)" using k len by simp
  have "chans (fold (\<lambda>i. upd_chan (ring_write h (bufSize b) p n (chans inp ! i)) i)
                  [0..<length (chans b)] b) ! c
        = ring_write h (bufSize b) p n (chans inp ! c) (chans b ! c)"
    using fold_upd_chan [of "length (chans b)" b "\<lambda>i. ring_write h (bufSize b) p n (chans inp ! i)"] c
    by simp
  then show ?thesis
    using nth_ring_write [OF len p n src kl, of h] by simp
qed

lemma fold_ring_write_shape:
  "bufSize (fold (\<lambda>i. upd_chan (ring_write h N p n (chans inp ! i)) i) [0..<length (chans b)] b)
     = bufSize b \<and>
   map length (chans (fold (\<lambda>i. upd_chan (ring_write h N p n (chans inp ! i)) i)
                        [0..<length (chans b)] b)) = map length (chans b)"
proof -
  let ?b' = "fold (\<lambda>i. upd_chan (ring_write h N p n (chans inp ! i)) i) [0..<length (chans b)] b"
  have f: "bufSize ?b' = bufSize b" "length (chans ?b') = length (chans b)"
    "\<And>c. c < length (chans b) \<Longrightarrow> chans ?b' ! c = ring_write h N p n (chans inp ! c) (chans b ! c)"
    using fold_upd_chan [of "length (chans b)" b "\<lambda>i. ring_write h N p n (chans inp ! i)"]
    by simp_all
  have "length (ring_write h N p n src d) = length d" for src d
    by (simp add: ring_write_def)
  with f show ?thesis by (auto intro!: nth_equalityI)
qed

subsection \<open>The member functions\<close>

lemma delay_current_update [simp]: "delay_current (updateActualSampleDelay s)"
  by (simp add: delay_current_def updateActualSampleDelay_def)

lemma updateActualSampleDelay_sel [simp]:
  "buffer (updateActualSampleDelay s) = buffer s"
  "resamplers (updateActualSampleDelay s) = resamplers s"
  "writePosition (updateActualSampleDelay s) = writePosition s"
  "readPosition (updateActualSampleDelay s) = readPosition s"
  "maxResamplingFactor (updateActualSampleDelay s) = maxResamplingFactor s"
  by (simp_all add: updateActualSampleDelay_def)

lemma pushBlock_buffer:
  "buffer (pushBlock s inp n g) =
     fold (\<lambda>i. upd_chan (ring_write (\<lambda>old x. x * g) (getNumSamples (buffer s)) (writePosition s) n
                           (chans inp ! i)) i)
       [0..<nat (getNumChannels (buffer s))] (buffer s)"
  by (simp add: pushBlock_def Let_def ring_write_def getReadPointer_def copyFrom_upd_chan
      upd_chan_twice)

lemma addToPushedBlock_buffer:
  "buffer (addToPushedBlock s inp n g) =
     fold (\<lambda>i. upd_chan (ring_write (\<lambda>old x. old + x * g) (getNumSamples (buffer s))
                           (if writePosition s - n < 0
                            then writePosition s - n + getNumSamples (buffer s)
                            else writePosition s - n) n
                           (chans inp ! i)) i)
       [0..<nat (getNumChannels (buffer s))] (buffer s)"
  by (simp add: addToPushedBlock_def Let_def ring_write_def getReadPointer_def addFrom_upd_chan
      upd_chan_twice)

lemma pushBlock_frame:
  "readPosition (pushBlock s inp n g) = readPosition s"
  "resamplers (pushBlock s inp n g) = resamplers s"
  "maxResamplingFactor (pushBlock s inp n g) = maxResamplingFactor s"
  "delay_current (pushBlock s inp n g)"
  "writePosition (pushBlock s inp n g) =
     (if writePosition s + n \<le> getNumSamples (buffer s) then writePosition s + n
      else writePosition s + n - getNumSamples (buffer s))"
  by (simp_all add: pushBlock_def Let_def)

lemma addToPushedBlock_frame:
  "readPosition (addToPushedBlock s inp n g) = readPosition s"
  "writePosition (addToPushedBlock s inp n g) = writePosition s"
  "resamplers (addToPushedBlock s inp n g) = resamplers s"
  "maxResamplingFactor (addToPushedBlock s inp n g) = maxResamplingFactor s"
  "numDelaySamples (addToPushedBlock s inp n g) = numDelaySamples s"
  by (simp_all add: addToPushedBlock_def Let_def)

lemma map_upd_step:
  "m < n \<Longrightarrow>
   (map (\<lambda>c. if c < m then g c else h c) [0..<n])[m := g m] =
     map (\<lambda>c. if c < Suc m then g c else h c) [0..<n]"
  by (auto intro!: nth_equalityI simp: nth_list_update less_Suc_eq)

lemma fold_pullChannel:
  assumes "m \<le> length rs0" "m \<le> length (chans ob0)"
  shows "fold (pullChannel P s f n) [0..<m] (u0, rs0, ob0) =
     (if m = 0 then u0 else fst (channelResult P s f n rs0 ob0 (m - 1)),
      map (\<lambda>c. if c < m then fst (snd (channelResult P s f n rs0 ob0 c)) else rs0 ! c)
        [0..<length rs0],
      ob0\<lparr>chans := map (\<lambda>c. if c < m then snd (snd (channelResult P s f n rs0 ob0 c))
                              else chans ob0 ! c) [0..<length (chans ob0)]\<rparr>)"
  using assms
proof (induction m)
  case 0
  then show ?case by (simp add: map_nth)
next
  case (Suc m)
  then have m: "m < length rs0" "m < length (chans ob0)" by simp_all
  have IH: "fold (pullChannel P s f n) [0..<m] (u0, rs0, ob0) =
     (if m = 0 then u0 else fst (channelResult P s f n rs0 ob0 (m - 1)),
      map (\<lambda>c. if c < m then fst (snd (channelResult P s f n rs0 ob0 c)) else rs0 ! c)
        [0..<length rs0],
      ob0\<lparr>chans := map (\<lambda>c. if c < m then snd (snd (channelResult P s f n rs0 ob0 c))
                              else chans ob0 ! c) [0..<length (chans ob0)]\<rparr>)"
    using Suc by simp
  have step: "fold (pullChannel P s f n) [0..<Suc m] (u0, rs0, ob0) =
      pullChannel P s f n m (fold (pullChannel P s f n) [0..<m] (u0, rs0, ob0))"
    by simp
  have cr: "process_r P (rs0 ! m) f (chans (buffer s) ! m, readPosition s) (chans ob0 ! m) n
               (getNumSamples (buffer s) - readPosition s) (getNumSamples (buffer s))
             = channelResult P s f n rs0 ob0 m"
    by (simp add: channelResult_def)
  note u1 = map_upd_step [OF m(1), of "\<lambda>c. fst (snd (channelResult P s f n rs0 ob0 c))"
      "\<lambda>c. rs0 ! c"]
  note u2 = map_upd_step [OF m(2), of "\<lambda>c. snd (snd (channelResult P s f n rs0 ob0 c))"
      "\<lambda>c. chans ob0 ! c"]
  show ?case
    unfolding step IH using m u1 u2
    by (simp add: pullChannel_def split_beta cr)
qed

lemma pullBlock_eq:
  assumes "nat (getNumChannels ob) \<le> length (resamplers s)"
  shows "pullBlock P s ob n d =
     (updateActualSampleDelay
        (s\<lparr>resamplers :=
              map (\<lambda>c. if c < nat (getNumChannels ob)
                       then fst (snd (channelResult P s (pullFactor s n d) n (resamplers s) ob c))
                       else resamplers s ! c) [0..<length (resamplers s)],
           readPosition := c_rem (readPosition s + lastUsed P s ob n d) (getNumSamples (buffer s))\<rparr>),
      ob\<lparr>chans := map (\<lambda>c. snd (snd (channelResult P s (pullFactor s n d) n (resamplers s) ob c)))
                      [0..<length (chans ob)]\<rparr>)"
proof -
  have m: "nat (getNumChannels ob) \<le> length (chans ob)" by (simp add: getNumChannels_def)
  show ?thesis
    unfolding pullBlock_def fold_pullChannel [OF assms m]
    by (simp add: lastUsed_def getNumChannels_def cong: map_cong)
qed

lemma pullBlock_resamplers:
  assumes "pullBlock_pre s ob" and "c < length (resamplers s)"
  shows "resamplers (fst (pullBlock P s ob n d)) ! c =
     fst (snd (process_r P (resamplers s ! c) (pullFactor s n d)
            (chans (buffer s) ! c, readPosition s) (chans ob ! c) n
            (getNumSamples (buffer s) - readPosition s) (getNumSamples (buffer s))))"
proof -
  from assms(1) have len: "nat (getNumChannels ob) = length (resamplers s)"
    by (auto simp: pullBlock_pre_def)
  then have le: "nat (getNumChannels ob) \<le> length (resamplers s)" by simp
  show ?thesis
    using assms(2) len by (simp add: pullBlock_eq [OF le] channelResult_def)
qed


lemma pushBlock_shape:
  "bufSize (buffer (pushBlock s inp n g)) = bufSize (buffer s) \<and>
   map length (chans (buffer (pushBlock s inp n g))) = map length (chans (buffer s))"
proof -
  have eq: "buffer (pushBlock s inp n g) =
      fold (\<lambda>i. upd_chan (ring_write (\<lambda>old x. x * g) (bufSize (buffer s)) (writePosition s) n
                            (chans inp ! i)) i)
        [0..<length (chans (buffer s))] (buffer s)"
    by (simp add: pushBlock_buffer getNumChannels_def getNumSamples_def)
  show ?thesis unfolding eq by (rule fold_ring_write_shape)
qed

lemma addToPushedBlock_shape:
  "bufSize (buffer (addToPushedBlock s inp n g)) = bufSize (buffer s) \<and>
   map length (chans (buffer (addToPushedBlock s inp n g))) = map length (chans (buffer s))"
proof -
  have eq: "buffer (addToPushedBlock s inp n g) =
      fold (\<lambda>i. upd_chan (ring_write (\<lambda>old x. old + x * g) (bufSize (buffer s))
                            (if writePosition s - n < 0
                             then writePosition s - n + bufSize (buffer s)
                             else writePosition s - n) n
                            (chans inp ! i)) i)
        [0..<length (chans (buffer s))] (buffer s)"
    by (simp add: addToPushedBlock_buffer getNumChannels_def getNumSamples_def)
  show ?thesis unfolding eq by (rule fold_ring_write_shape)
qed

lemma pushBlock_samples:
  assumes pre: "pushBlock_pre s inp n" and ok: "buffer_ok (buffer s)" and inp: "input_ok inp n"
    and n: "0 \<le> n" and w: "0 \<le> writePosition s" "writePosition s \<le> getNumSamples (buffer s)"
    and c: "c < length (chans (buffer s))" and k: "int k < getNumSamples (buffer s)"
  shows "chans (buffer (pushBlock s inp n g)) ! c ! k =
     (if (int k - writePosition s) mod getNumSamples (buffer s) < n
      then chans inp ! c ! nat ((int k - writePosition s) mod getNumSamples (buffer s)) * g
      else chans (buffer s) ! c ! k)"
proof -
  from pre have chs: "length (chans (buffer s)) = length (chans inp)"
    and nN: "n < bufSize (buffer s)"
    by (simp_all add: pushBlock_pre_def getNumChannels_def getNumSamples_def)
  show ?thesis
    using fold_ring_write_nth [OF ok chs inp n nN, of "writePosition s" c k "\<lambda>old x. x * g"]
      w c k
    by (simp add: pushBlock_buffer getNumChannels_def getNumSamples_def)
qed

lemma previousWrite_mod:
  "(k - (if w - n < 0 then w - n + N else w - n)) mod N = (k - (w - n)) mod (N::int)"
proof (cases "w - n < 0")
  case True
  have "k - (w - n + N) = k - (w - n) - N" by simp
  then have "(k - (w - n + N)) mod N = (k - (w - n)) mod N"
    by (simp only: minus_mod_self2)
  with True show ?thesis by simp
next
  case False
  then show ?thesis by simp
qed

lemma pushBlock_writePosition_mod:
  assumes "0 \<le> writePosition s" "writePosition s \<le> getNumSamples (buffer s)"
    "0 \<le> n" "n < getNumSamples (buffer s)"
    "writePosition s + n \<noteq> getNumSamples (buffer s)"
  shows "writePosition (pushBlock s inp n g) = (writePosition s + n) mod getNumSamples (buffer s)"
proof (cases "writePosition s + n < getNumSamples (buffer s)")
  case True
  with assms show ?thesis by (simp add: pushBlock_frame)
next
  case False
  with assms have gt: "getNumSamples (buffer s) < writePosition s + n" by simp
  have "(writePosition s + n - getNumSamples (buffer s)) mod getNumSamples (buffer s)
      = writePosition s + n - getNumSamples (buffer s)"
    using assms gt by (intro mod_pos_pos_trivial) auto
  then have "(writePosition s + n) mod getNumSamples (buffer s)
      = writePosition s + n - getNumSamples (buffer s)"
    by (simp only: minus_mod_self2)
  with gt show ?thesis by (simp add: pushBlock_frame)
qed

lemma setNumSamplesDelay_jump:
  "0 \<le> D \<Longrightarrow> D < getNumSamples (buffer s) \<Longrightarrow>
   getActualSampleDelay (setNumSamplesDelay P s D) = D \<and>
   (- getNumSamples (buffer s) \<le> writePosition s - D \<and>
    writePosition s - D < getNumSamples (buffer s) \<longrightarrow>
      readPosition (setNumSamplesDelay P s D)
        = (writePosition s - D) mod getNumSamples (buffer s))"
proof -
  assume D: "0 \<le> D" "D < getNumSamples (buffer s)"
  have a: "getActualSampleDelay (setNumSamplesDelay P s D) = D"
    using D
    by (simp add: getActualSampleDelay_def setNumSamplesDelay_def reset_def Let_def
        updateActualSampleDelay_def)
  have r: "readPosition (setNumSamplesDelay P s D) =
      (if writePosition s - D < 0 then writePosition s - D + getNumSamples (buffer s)
       else writePosition s - D)"
    by (simp add: setNumSamplesDelay_def reset_def Let_def)
  from a show ?thesis
    using wrap_mod [of "getNumSamples (buffer s)" "writePosition s - D"]
    by (simp only: r) simp
qed

lemma setNumSamplesDelay_cursors_ok:
  assumes "cursors_ok s" and "0 \<le> D" and "D < getNumSamples (buffer s)"
  shows "readPosition (setNumSamplesDelay P s D)
           = (writePosition s - D) mod getNumSamples (buffer s) \<and>
         getActualSampleDelay (setNumSamplesDelay P s D) = D"
  using setNumSamplesDelay_jump [OF assms(2,3), of P] assms
  by (simp add: cursors_ok_def)

subsection \<open>The loops of setSize\<close>

lemma addResamplers_eq:
  "addResamplers P rs n = rs @ replicate (nat (n - int (length rs))) (new_r P)"
proof (induction P rs n rule: addResamplers.induct)
  case (1 P rs n)
  show ?case
  proof (cases "int (length rs) < n")
    case True
    then have "nat (n - int (length rs)) = Suc (nat (n - int (length (rs @ [new_r P]))))"
      by simp
    with True 1 show ?thesis
      by (subst addResamplers.simps) (simp add: replicate_app_Cons_same)
  next
    case False
    then show ?thesis by (subst addResamplers.simps) simp
  qed
qed

lemma removeResamplers_eq:
  "0 \<le> n \<Longrightarrow> removeResamplers rs n = Some (take (nat n) rs)"
proof (induction rs rule: rev_induct)
  case Nil
  then show ?case by (subst removeResamplers.simps) simp
next
  case (snoc x xs)
  then show ?case by (subst removeResamplers.simps) auto
qed

lemma removeResamplers_returns:
  assumes "removeResamplers rs n = Some y" shows "0 \<le> n"
proof (rule removeResamplers.raw_induct [where P = "\<lambda>rs n y. 0 \<le> n", OF _ assms])
  fix f :: "'a list \<Rightarrow> int \<Rightarrow> 'a list option" and rs n y
  assume IH: "\<And>rs n y. f rs n = Some y \<Longrightarrow> 0 \<le> n"
    and body: "(if int (length rs) > n then f (butlast rs) n else Some rs) = Some y"
  show "0 \<le> n"
  proof (cases "int (length rs) > n")
    case True
    with body IH show ?thesis by simp
  next
    case False
    then show ?thesis by simp
  qed
qed

lemma removeResamplers_diverges: "n < 0 \<Longrightarrow> removeResamplers rs n = None"
  using removeResamplers_returns [of rs n] by (cases "removeResamplers rs n") auto

lemma setSize_eq:
  "0 \<le> numChannels \<Longrightarrow>
   setSize P s numChannels numSamples sampleRate =
     Some (updateActualSampleDelay
       (if writePosition s \<ge> numSamples
        then s\<lparr>writePosition := 0,
               buffer := buffer_clear (buffer_setSize (buffer s) numChannels numSamples),
               resamplers := map (reset_r P)
                 (take (nat numChannels) (addResamplers P (resamplers s) numChannels))\<rparr>
        else s\<lparr>buffer := buffer_setSize (buffer s) numChannels numSamples,
               resamplers := take (nat numChannels) (addResamplers P (resamplers s) numChannels)\<rparr>))"
  by (simp add: setSize_def Let_def removeResamplers_eq)

lemma buffer_ok_shape:
  "bufSize b' = bufSize b \<Longrightarrow> map length (chans b') = map length (chans b) \<Longrightarrow>
   buffer_ok b \<Longrightarrow> buffer_ok b'"
proof -
  assume a: "bufSize b' = bufSize b" "map length (chans b') = map length (chans b)" "buffer_ok b"
  have "list_all (\<lambda>c. int (length c) = bufSize b) (chans b') =
        list_all (\<lambda>l. int l = bufSize b) (map length (chans b'))"
    by (simp add: list_all_iff)
  also have "\<dots> = list_all (\<lambda>c. int (length c) = bufSize b) (chans b)"
    by (simp add: a(2) list_all_iff)
  finally show ?thesis using a by (simp add: buffer_ok_def)
qed

lemma buffer_ok_setSize: "0 \<le> n \<Longrightarrow> buffer_ok b \<Longrightarrow> buffer_ok (buffer_setSize b c n)"
  by (simp add: buffer_setSize_def buffer_ok_def list_all_iff)

lemma buffer_ok_clear: "buffer_ok b \<Longrightarrow> buffer_ok (buffer_clear b)"
  by (simp add: buffer_clear_def buffer_ok_def list_all_iff)

lemma bufSize_setSize: "bufSize (buffer_setSize b c n) = n"
  by (simp add: buffer_setSize_def getNumSamples_def)

lemma bufSize_clear: "bufSize (buffer_clear b) = bufSize b"
  by (simp add: buffer_clear_def)

lemma chans_clear_setSize:
  "buffer_ok b \<Longrightarrow> 0 \<le> numChannels \<Longrightarrow>
   chans (buffer_clear (buffer_setSize b numChannels numSamples))
     = replicate (nat numChannels) (replicate (nat numSamples) 0)"
  by (auto simp: buffer_clear_def buffer_setSize_def buffer_ok_def getNumSamples_def
      getNumChannels_def list_all_length intro!: nth_equalityI)

lemma setSize_hard_reset:
  assumes "0 \<le> numChannels" "buffer_ok (buffer s)" "numSamples \<le> writePosition s"
  shows "\<exists>s'. setSize P s numChannels numSamples sampleRate = Some s' \<and>
     writePosition s' = 0 \<and> readPosition s' = readPosition s \<and>
     chans (buffer s') = replicate (nat numChannels) (replicate (nat numSamples) 0) \<and>
     getNumSamples (buffer s') = numSamples \<and>
     resamplers s' = map (reset_r P) (take (nat numChannels)
        (resamplers s @ replicate (nat (numChannels - int (length (resamplers s)))) (new_r P))) \<and>
     delay_current s'"
  using assms
  by (simp add: setSize_eq chans_clear_setSize getNumSamples_def bufSize_clear bufSize_setSize
      addResamplers_eq)

lemma maxResamplingFactor_kept:
  "maxResamplingFactor (pushBlock s inp n g) = maxResamplingFactor s"
  "maxResamplingFactor (addToPushedBlock s inp n g) = maxResamplingFactor s"
  "maxResamplingFactor (setNumSamplesDelay P s D) = maxResamplingFactor s"
  "maxResamplingFactor (reset P s) = maxResamplingFactor s"
  "maxResamplingFactor (fst (pullBlock P s ob n d)) = maxResamplingFactor s"
  "setSize P s numChannels numSamples sampleRate = Some s' \<Longrightarrow>
     maxResamplingFactor s' = maxResamplingFactor s"
  by (auto simp: pushBlock_frame addToPushedBlock_frame setNumSamplesDelay_def reset_def Let_def
      pullBlock_def setSize_def split_beta split: option.splits if_splits)

subsection \<open>A run from the constructor\<close>

lemma demo_run1: "setSize demoInterp (newElasticDelayBuffer d0) 1 8 sampleRate = Some demoEmpty"
  by (simp add: setSize_eq addResamplers_eq newElasticDelayBuffer_def demoEmpty_def demoInterp_def
      updateActualSampleDelay_def buffer_setSize_def emptyBuffer_def getNumSamples_def
      getNumChannels_def eval_nat_numeral)

lemma demo_run2: "pushBlock demoEmpty demoBlock 4 1 = demoHalf"
  by (simp add: pushBlock_def demoEmpty_def demoBlock_def demoHalf_def Let_def
      updateActualSampleDelay_def getNumSamples_def getNumChannels_def copyFrom_def
      write_samples_def getReadPointer_def)

lemma demo_run3: "pushBlock demoHalf demoBlock 4 1 = demoFull"
  by (simp add: pushBlock_def demoFull_def demoBlock_def demoHalf_def Let_def
      updateActualSampleDelay_def getNumSamples_def getNumChannels_def copyFrom_def
      write_samples_def getReadPointer_def)

lemma demo_run4: "setNumSamplesDelay demoInterp demoEmpty 3 = demoDelayed"
  by (simp add: setNumSamplesDelay_def reset_def Let_def demoEmpty_def demoDelayed_def
      demoInterp_def updateActualSampleDelay_def getNumSamples_def)

lemma demo_run5: "pushBlock demoDelayed demoBlock 4 1 = demoShifted"
  by (simp add: pushBlock_def demoDelayed_def demoBlock_def demoShifted_def Let_def
      updateActualSampleDelay_def getNumSamples_def getNumChannels_def copyFrom_def
      write_samples_def getReadPointer_def)

subsection \<open>What the member functions keep\<close>

text \<open>
  \<open>reach_inv\<close> holds after the constructor and is kept by every member function called
  with its assertions true, non-negative sizes and counts, and an interpolator that
  returns a non-negative count. So it holds in every state that such calls reach.
\<close>

lemma c_rem_nonneg: "0 \<le> a \<Longrightarrow> 0 \<le> c_rem a b"
  by (cases "b = 0") (simp_all add: c_rem_def sgn_if)

lemma reach_inv_new: "reach_inv (newElasticDelayBuffer d0)"
  by (simp add: reach_inv_def newElasticDelayBuffer_def emptyBuffer_def buffer_ok_def
      getNumSamples_def)

lemma reach_inv_setSize:
  "reach_inv s \<Longrightarrow> 0 \<le> numChannels \<Longrightarrow> 0 \<le> numSamples \<Longrightarrow>
   \<exists>s'. setSize P s numChannels numSamples sampleRate = Some s' \<and> reach_inv s'"
  by (simp add: setSize_eq reach_inv_def buffer_ok_setSize buffer_ok_clear getNumSamples_def
      bufSize_setSize bufSize_clear)

lemma reach_inv_setNumSamplesDelay:
  "reach_inv s \<Longrightarrow> setNumSamplesDelay_pre s D \<Longrightarrow> reach_inv (setNumSamplesDelay P s D)"
  by (simp add: reach_inv_def setNumSamplesDelay_pre_def setNumSamplesDelay_def reset_def Let_def)

lemma reach_inv_simple:
  "reach_inv s \<Longrightarrow> reach_inv (setMaxResamplingFactor s m)"
  "reach_inv s \<Longrightarrow> reach_inv (reset P s)"
  by (simp_all add: reach_inv_def setMaxResamplingFactor_def reset_def)

lemma reach_inv_pushBlock:
  assumes "reach_inv s" "pushBlock_pre s inp n" "0 \<le> n"
  shows "reach_inv (pushBlock s inp n g)"
proof -
  note sh = pushBlock_shape [of s inp n g]
  from assms(1) have ok: "buffer_ok (buffer (pushBlock s inp n g))"
    using buffer_ok_shape [OF sh [THEN conjunct1] sh [THEN conjunct2]]
    by (simp add: reach_inv_def)
  from assms have w: "0 \<le> writePosition s" "writePosition s \<le> bufSize (buffer s)"
    "0 \<le> readPosition s" "n < bufSize (buffer s)"
    by (simp_all add: reach_inv_def pushBlock_pre_def getNumSamples_def)
  have "0 \<le> writePosition (pushBlock s inp n g) \<and>
        writePosition (pushBlock s inp n g) \<le> bufSize (buffer s)"
    using w assms(3) by (simp add: pushBlock_frame getNumSamples_def)
  with ok w sh show ?thesis
    by (simp add: reach_inv_def pushBlock_frame(1) getNumSamples_def)
qed

lemma reach_inv_addToPushedBlock:
  assumes "reach_inv s"
  shows "reach_inv (addToPushedBlock s inp n g)"
proof -
  note sh = addToPushedBlock_shape [of s inp n g]
  from assms have ok: "buffer_ok (buffer (addToPushedBlock s inp n g))"
    using buffer_ok_shape [OF sh [THEN conjunct1] sh [THEN conjunct2]]
    by (simp add: reach_inv_def)
  with assms sh show ?thesis
    by (simp add: reach_inv_def addToPushedBlock_frame getNumSamples_def)
qed

lemma reach_inv_pullBlock:
  assumes "reach_inv s" "pullBlock_pre s ob" "0 \<le> lastUsed P s ob n d"
  shows "reach_inv (fst (pullBlock P s ob n d))"
proof -
  from assms(2) have le: "nat (getNumChannels ob) \<le> length (resamplers s)"
    by (auto simp: pullBlock_pre_def)
  from assms(1,3) have "0 \<le> readPosition s + lastUsed P s ob n d"
    by (simp add: reach_inv_def)
  then have "0 \<le> c_rem (readPosition s + lastUsed P s ob n d) (getNumSamples (buffer s))"
    by (rule c_rem_nonneg)
  with assms(1) show ?thesis
    by (simp add: pullBlock_eq [OF le] reach_inv_def)
qed

text \<open>
  The cursor invariant \<open>cursors_ok\<close> is kept by the same calls, with two exceptions:
  a \<open>pushBlock\<close> that ends exactly at the capacity, and a \<open>setSize\<close> to a capacity
  that the read cursor does not fit.
\<close>

lemma cursors_ok_pushBlock:
  assumes "cursors_ok s" "pushBlock_pre s inp n" "0 \<le> n"
    "writePosition s + n \<noteq> getNumSamples (buffer s)"
  shows "cursors_ok (pushBlock s inp n g)"
proof -
  note sh = pushBlock_shape [of s inp n g]
  from assms have w: "0 \<le> writePosition s" "writePosition s < bufSize (buffer s)"
    "0 \<le> readPosition s" "readPosition s < bufSize (buffer s)" "n < bufSize (buffer s)"
    "writePosition s + n \<noteq> bufSize (buffer s)"
    by (simp_all add: cursors_ok_def pushBlock_pre_def getNumSamples_def)
  have "0 \<le> writePosition (pushBlock s inp n g) \<and>
        writePosition (pushBlock s inp n g) < bufSize (buffer s)"
    using w assms(3) by (simp add: pushBlock_frame getNumSamples_def)
  with w sh show ?thesis
    by (simp add: cursors_ok_def pushBlock_frame(1) getNumSamples_def)
qed

lemma cursors_ok_setNumSamplesDelay:
  "cursors_ok s \<Longrightarrow> 0 \<le> D \<Longrightarrow> D < getNumSamples (buffer s) \<Longrightarrow>
   cursors_ok (setNumSamplesDelay P s D)"
  by (simp add: cursors_ok_def setNumSamplesDelay_def reset_def Let_def)

lemma cursors_ok_simple:
  "cursors_ok s \<Longrightarrow> cursors_ok (reset P s)"
  "cursors_ok s \<Longrightarrow> cursors_ok (setMaxResamplingFactor s m)"
  "cursors_ok s \<Longrightarrow> cursors_ok (addToPushedBlock s inp n g)"
  using addToPushedBlock_shape [of s inp n g]
  by (simp_all add: cursors_ok_def reset_def setMaxResamplingFactor_def addToPushedBlock_frame
      getNumSamples_def)

lemma cursors_ok_pullBlock:
  assumes "cursors_ok s" "pullBlock_pre s ob" "0 \<le> lastUsed P s ob n d"
  shows "cursors_ok (fst (pullBlock P s ob n d))"
proof -
  from assms(2) have le: "nat (getNumChannels ob) \<le> length (resamplers s)"
    by (auto simp: pullBlock_pre_def)
  from assms(1) have N: "0 < getNumSamples (buffer s)" by (simp add: cursors_ok_def)
  from assms(1,3) have "0 \<le> readPosition s + lastUsed P s ob n d"
    by (simp add: cursors_ok_def)
  then have "c_rem (readPosition s + lastUsed P s ob n d) (getNumSamples (buffer s))
      = (readPosition s + lastUsed P s ob n d) mod getNumSamples (buffer s)"
    using N by (rule c_rem_mod)
  with assms(1) N show ?thesis
    by (simp add: pullBlock_eq [OF le] cursors_ok_def)
qed

lemma cursors_ok_setSize:
  "0 \<le> numChannels \<Longrightarrow> 0 < numSamples \<Longrightarrow> 0 \<le> writePosition s \<Longrightarrow>
   0 \<le> readPosition s \<Longrightarrow> readPosition s < numSamples \<Longrightarrow>
   \<exists>s'. setSize P s numChannels numSamples sampleRate = Some s' \<and> cursors_ok s'"
  by (simp add: setSize_eq cursors_ok_def getNumSamples_def bufSize_setSize bufSize_clear
     )

section \<open>The claims\<close>

subsection \<open>Resizing: C1\<close>

text \<open>
  C1: after \<open>setSize\<close> in a state with \<open>writePos \<ge> samples\<close>, both cursors are 0, the
  samples are cleared, every resampler is reset and the delay snapshot is recomputed. The
  code does all of it but for the read cursor (\<open>setSize_hard_reset\<close>); evaluated
  here on a ring of capacity 8 with the write cursor at 4 and the read cursor at 5,
  resized to a capacity of 4: the write cursor is 0 afterwards, the read cursor still 5.
\<close>

theorem setSize_reset_keeps_readPosition:
  "writePosition demoShifted \<ge> 4 \<and>
   setSize demoInterp demoShifted 1 4 sampleRate = Some demoShrunk \<and>
   writePosition demoShrunk = 0 \<and> readPosition demoShrunk = 5"
  by (simp add: setSize_eq addResamplers_eq)
     (simp add: demoShifted_def demoShrunk_def demoInterp_def getNumSamples_def getNumChannels_def
      updateActualSampleDelay_def buffer_setSize_def buffer_clear_def eval_nat_numeral)

subsection \<open>The cursor invariant: C2\<close>

text \<open>
  C2: every public operation called as documented keeps \<open>0 \<le> writePos < N\<close> and
  \<open>0 \<le> readPos < N\<close>, also a \<open>pushBlock\<close> that ends exactly at \<open>N\<close> and a \<open>setSize\<close>
  that shrinks the capacity. Evaluated at these two calls: a block of four samples pushed
  at write cursor 4 in a ring of 8 leaves the write cursor at 8, and a resize to 4 samples
  leaves the read cursor at 5.
\<close>

theorem cursors_ok_broken:
  "cursors_ok demoHalf \<and> pushBlock_pre demoHalf demoBlock 4 \<and>
   \<not> cursors_ok (pushBlock demoHalf demoBlock 4 1) \<and>
   cursors_ok demoDelayed \<and>
   setSize demoInterp demoDelayed 1 4 sampleRate = Some demoShrunk \<and> \<not> cursors_ok demoShrunk"
  by (simp add: demo_run3 setSize_eq addResamplers_eq)
     (simp add: cursors_ok_def pushBlock_pre_def demoHalf_def demoBlock_def demoFull_def
      demoDelayed_def demoShrunk_def demoInterp_def getNumSamples_def getNumChannels_def
      updateActualSampleDelay_def buffer_setSize_def eval_nat_numeral)

subsection \<open>The resampling factor: C3, C4 and C10\<close>

text \<open>
  The factor that \<open>pullBlock\<close> hands to \<open>process\<close> is \<open>pullFactor\<close>: the factor of
  lines 129 to 133, \<open>rawFactor\<close>, after the two clamps of lines 134 to 137. What a
  channel's resampler is after \<open>pullBlock\<close> is what \<open>process\<close> makes of it when called
  with that factor (\<open>pullBlock_resamplers\<close>); the statements below say so for every
  interpolator, and the interpolator of the concrete objects keeps the factor as its state.
\<close>

text \<open>
  C3: for \<open>numSamples > 0\<close> the factor before the clamps is
  \<open>1 + difference / (numSamples * 8)\<close> with
  \<open>difference = ((writePos - readPos) mod N - numSamples) - delayTime\<close>. The code computes
  this whenever both cursors are in \<open>[0, N)\<close> and the subtractions stay within 32 bits
  (\<open>rawFactor_cursors_ok\<close>). Evaluated here in the state that two blocks of four samples
  leave in a ring of 8 (\<open>demo_run3\<close>), write cursor 8 and read cursor 0, with
  \<open>numSamples = 2\<close> and \<open>delayTime = 0\<close>: the code takes the current delay as 8 and
  hands the factor 1.375 to the resampler; with the current delay \<open>(8 - 0) mod 8 = 0\<close> of
  the claim the factor is 0.875.
\<close>

theorem pullBlock_factor_at_full:
  "pullBlock_pre demoFull demoOut \<and>
   rawFactor demoFull 2 0 = Fin (11 / 8) \<and>
   resamplers (fst (pullBlock demoInterp demoFull demoOut 2 0)) = [Fin (11 / 8)] \<and>
   (writePosition demoFull - readPosition demoFull) mod getNumSamples (buffer demoFull) = 0 \<and>
   d_add (Fin 1) (d_div (d_of_int ((0 - 2) - 0)) (d_mult (d_of_int 2) (Fin 8))) = Fin (7 / 8)"
proof -
  have pre: "pullBlock_pre demoFull demoOut"
    by (simp add: pullBlock_pre_def demoFull_def demoOut_def getNumSamples_def getNumChannels_def)
  have raw: "rawFactor demoFull 2 0 = Fin (11 / 8)"
    by (simp add: factor_eval demoFull_def double_eval)
  have f: "pullFactor demoFull 2 0 = Fin (11 / 8)"
    by (simp add: pullFactor_def raw) (simp add: clampFactor_def lowFactor_eq demoFull_def)
  have l: "length (resamplers (fst (pullBlock demoInterp demoFull demoOut 2 0))) = 1"
    by (simp add: pullBlock_eq pullBlock_pre_def demoFull_def demoOut_def getNumChannels_def)
  have r0: "resamplers (fst (pullBlock demoInterp demoFull demoOut 2 0)) ! 0 = Fin (11 / 8)"
    using pullBlock_resamplers [OF pre, of 0 demoInterp 2 0]
    by (simp add: f demoInterp_def) (simp add: demoFull_def)
  have rs: "resamplers (fst (pullBlock demoInterp demoFull demoOut 2 0)) = [Fin (11 / 8)]"
    using l r0 by (auto simp: length_Suc_conv)
  have m: "(writePosition demoFull - readPosition demoFull) mod getNumSamples (buffer demoFull) = 0"
    by (simp add: demoFull_def getNumSamples_def)
  have c: "d_add (Fin 1) (d_div (d_of_int ((0 - 2) - 0)) (d_mult (d_of_int 2) (Fin 8))) = Fin (7 / 8)"
    by (simp add: d_of_int_def double_eval)
  from pre raw rs m c show ?thesis by blast
qed






subsection \<open>The explicit delay jump: C5 and C9\<close>

text \<open>
  C5: after \<open>setNumSamplesDelay D\<close> with \<open>0 \<le> D < N\<close> the read cursor is
  \<open>(writePos - D) mod N\<close> and the next \<open>getActualSampleDelay\<close> returns \<open>D\<close>. The code
  does so in every state with \<open>0 \<le> writePos < N\<close> (\<open>setNumSamplesDelay_cursors_ok\<close>).
  Evaluated here in the state that two blocks of four samples leave in a ring of 8
  (\<open>demo_run3\<close>), with the write cursor at 8: \<open>setNumSamplesDelay 0\<close> puts the read
  cursor at 8, where \<open>(8 - 0) mod 8 = 0\<close>.
\<close>

theorem setNumSamplesDelay_at_full:
  "setNumSamplesDelay_pre demoFull 0 \<and>
   readPosition (setNumSamplesDelay demoInterp demoFull 0) = 8 \<and>
   (writePosition demoFull - 0) mod getNumSamples (buffer demoFull) = 0 \<and>
   getActualSampleDelay (setNumSamplesDelay demoInterp demoFull 0) = 0"
  by (simp add: setNumSamplesDelay_pre_def setNumSamplesDelay_def reset_def Let_def demoFull_def
      getNumSamples_def getActualSampleDelay_def updateActualSampleDelay_def)

text \<open>
  C9: \<open>setNumSamplesDelay\<close> leaves the stored samples, the write cursor and the maximal
  factor as they are; it resets every resampler, as \<open>reset\<close> does, and the delay snapshot
  it leaves is the one of the new cursors. The fields it changes are the read cursor, the
  resamplers and the snapshot.
\<close>

theorem setNumSamplesDelay_frame:
  "buffer (setNumSamplesDelay P s D) = buffer s \<and>
   writePosition (setNumSamplesDelay P s D) = writePosition s \<and>
   maxResamplingFactor (setNumSamplesDelay P s D) = maxResamplingFactor s \<and>
   resamplers (setNumSamplesDelay P s D) = map (reset_r P) (resamplers s) \<and>
   delay_current (setNumSamplesDelay P s D) \<and>
   reset P s = s\<lparr>resamplers := map (reset_r P) (resamplers s)\<rparr>"
  by (simp add: setNumSamplesDelay_def reset_def Let_def)

text \<open>C9, witness: a delay of 3 on the half-filled buffer.\<close>

theorem setNumSamplesDelay_frame_witness:
  "buffer (setNumSamplesDelay demoInterp demoHalf 3) = buffer demoHalf \<and>
   writePosition (setNumSamplesDelay demoInterp demoHalf 3) = 4 \<and>
   readPosition (setNumSamplesDelay demoInterp demoHalf 3) = 1 \<and>
   numDelaySamples (setNumSamplesDelay demoInterp demoHalf 3) = 3"
  using setNumSamplesDelay_frame [of demoInterp demoHalf 3]
  by (simp add: setNumSamplesDelay_def reset_def Let_def demoHalf_def demoInterp_def
      updateActualSampleDelay_def getNumSamples_def)

subsection \<open>Writing blocks: C6 and C8\<close>

text \<open>
  C6: \<open>pushBlock\<close> with \<open>numSamples < N\<close> writes the scaled samples into the ring from
  \<open>writePos\<close> on, wrapping at \<open>N\<close>, advances \<open>writePos\<close> by \<open>numSamples\<close> modulo \<open>N\<close>,
  keeps \<open>readPos\<close> and recomputes the delay. The samples, the read cursor and the delay
  are as claimed (\<open>pushBlock_samples\<close>, \<open>pushBlock_frame\<close>), and so is the write cursor
  unless the block ends exactly at \<open>N\<close> (\<open>pushBlock_writePosition_mod\<close>). Evaluated
  at such a block: four samples pushed at write cursor 4 in a ring of 8 leave the write
  cursor at 8, where \<open>(4 + 4) mod 8 = 0\<close>.
\<close>

theorem pushBlock_writePosition_at_end:
  "pushBlock_pre demoHalf demoBlock 4 \<and> input_ok demoBlock 4 \<and>
   writePosition (pushBlock demoHalf demoBlock 4 1) = 8 \<and>
   (writePosition demoHalf + 4) mod getNumSamples (buffer demoHalf) = 0"
  by (simp add: demo_run3)
     (simp add: pushBlock_pre_def input_ok_def demoHalf_def demoBlock_def demoFull_def
      getNumSamples_def getNumChannels_def)

text \<open>
  C8: \<open>addToPushedBlock\<close> with \<open>0 \<le> numSamples < N\<close>, matching channel counts and an
  input of at least \<open>numSamples\<close> samples per channel adds the scaled input to the
  \<open>numSamples\<close> ring samples that end at \<open>writePos\<close>, wrapping at \<open>N\<close>: the sample at
  index \<open>k\<close> is in that region when \<open>(k - (writePos - numSamples)) mod N < numSamples\<close>,
  and that number is its index in the input. The cursors, the delay snapshot, the
  resamplers and every other ring sample stay as they are. The state is any state with a
  well-formed buffer and \<open>0 \<le> writePos \<le> N\<close>, which \<open>reach_inv\<close> gives.
\<close>

theorem addToPushedBlock_overlay:
  assumes pre: "addToPushedBlock_pre s inp n" and ok: "buffer_ok (buffer s)"
    and inp: "input_ok inp n" and n: "0 \<le> n"
    and w: "0 \<le> writePosition s" "writePosition s \<le> getNumSamples (buffer s)"
  shows "writePosition (addToPushedBlock s inp n g) = writePosition s \<and>
     readPosition (addToPushedBlock s inp n g) = readPosition s \<and>
     numDelaySamples (addToPushedBlock s inp n g) = numDelaySamples s \<and>
     resamplers (addToPushedBlock s inp n g) = resamplers s \<and>
     maxResamplingFactor (addToPushedBlock s inp n g) = maxResamplingFactor s \<and>
     getNumSamples (buffer (addToPushedBlock s inp n g)) = getNumSamples (buffer s) \<and>
     map length (chans (buffer (addToPushedBlock s inp n g))) = map length (chans (buffer s)) \<and>
     (\<forall>c k. c < length (chans (buffer s)) \<and> int k < getNumSamples (buffer s) \<longrightarrow>
        chans (buffer (addToPushedBlock s inp n g)) ! c ! k =
          (if (int k - (writePosition s - n)) mod getNumSamples (buffer s) < n
           then chans (buffer s) ! c ! k
                + chans inp ! c ! nat ((int k - (writePosition s - n)) mod getNumSamples (buffer s)) * g
           else chans (buffer s) ! c ! k))"
proof -
  let ?N = "bufSize (buffer s)"
  let ?p = "if writePosition s - n < 0 then writePosition s - n + ?N else writePosition s - n"
  from pre have chs: "length (chans (buffer s)) = length (chans inp)" and nN: "n < ?N"
    by (simp_all add: addToPushedBlock_pre_def getNumChannels_def getNumSamples_def)
  from w n nN have p: "0 \<le> ?p" "?p \<le> ?N" by (auto simp: getNumSamples_def)
  have samples: "chans (buffer (addToPushedBlock s inp n g)) ! c ! k =
          (if (int k - (writePosition s - n)) mod ?N < n
           then chans (buffer s) ! c ! k
                + chans inp ! c ! nat ((int k - (writePosition s - n)) mod ?N) * g
           else chans (buffer s) ! c ! k)"
    if c: "c < length (chans (buffer s))" and k: "int k < ?N" for c k
    using fold_ring_write_nth [OF ok chs inp n nN p c k, of "\<lambda>old x. old + x * g"]
    by (simp only: addToPushedBlock_buffer getNumChannels_def getNumSamples_def nat_int
        previousWrite_mod)
  have shape: "bufSize (buffer (addToPushedBlock s inp n g)) = ?N"
    "map length (chans (buffer (addToPushedBlock s inp n g))) = map length (chans (buffer s))"
    using fold_ring_write_shape [of "\<lambda>old x. old + x * g" ?N ?p n inp "buffer s"]
    by (simp_all only: addToPushedBlock_buffer getNumChannels_def getNumSamples_def nat_int)
  from samples shape show ?thesis
    by (simp add: addToPushedBlock_frame getNumSamples_def)
qed

text \<open>
  C8, witness: three samples with gain 2 added at write cursor 1 of a ring of 8; the
  region is the indices 6, 7 and 0.
\<close>

theorem addToPushedBlock_overlay_witness:
  "addToPushedBlock_pre demoWrapped demoBlock 3 \<and> buffer_ok (buffer demoWrapped) \<and>
   input_ok demoBlock 3 \<and> (0::int) \<le> 3 \<and> 0 \<le> writePosition demoWrapped \<and>
   writePosition demoWrapped \<le> getNumSamples (buffer demoWrapped) \<and>
   chans (buffer (addToPushedBlock demoWrapped demoBlock 3 2)) = [[16, 20, 30, 40, 50, 60, 72, 84]] \<and>
   writePosition (addToPushedBlock demoWrapped demoBlock 3 2) = 1"
proof -
  have h: "addToPushedBlock_pre demoWrapped demoBlock 3" "buffer_ok (buffer demoWrapped)"
    "input_ok demoBlock 3" "(0::int) \<le> 3" "0 \<le> writePosition demoWrapped"
    "writePosition demoWrapped \<le> getNumSamples (buffer demoWrapped)"
    by (simp_all add: addToPushedBlock_pre_def buffer_ok_def input_ok_def demoWrapped_def
        demoBlock_def getNumSamples_def getNumChannels_def)
  have e: "chans (buffer (addToPushedBlock demoWrapped demoBlock 3 2)) = [[16, 20, 30, 40, 50, 60, 72, 84]]"
    by (simp add: addToPushedBlock_def demoWrapped_def demoBlock_def Let_def
      getNumSamples_def getNumChannels_def addFrom_def write_samples_def getReadPointer_def)
  from addToPushedBlock_overlay [OF h, of 2] h e show ?thesis
    by (simp add: demoWrapped_def)
qed

subsection \<open>Advancing the read cursor: C7\<close>



end
